theory Spec2Isabelle
  imports Complex_Main "HOL-Library.Sublist"
begin

text \<open>
  A shallow embedding of the extractive question-answering pipeline of the French health
  chatbot: text cleaning, sentence filtering, summaries, the snippet merger, topic
  detection and filtering and the answer composer (\<open>src/rag_pipeline.py\<close>), the
  filename step of the offline build (\<open>build_vector_store.py\<close>) and the loading of the
  vector store (\<open>app.py\<close>). The source functions come first, then the definitions
  that follow the specification, then the lemmas and the claims.
\<close>

section \<open>Python strings\<close>

text \<open>
  A Python \<open>str\<close> is a sequence of Unicode code points and \<open>len\<close> counts code points.
  The artifact characters of \<open>WEIRD_CHARS\<close> lie in the private use area (U+E902 ..
  U+E931), outside the 8-bit \<open>char\<close> of HOL, so a string is a list of code points.
\<close>

type_synonym codepoint = nat
type_synonym str = "codepoint list"

definition lit :: "string \<Rightarrow> str" where
  \<comment> \<open>an ASCII literal of the source\<close>
  "lit s = map of_char s"

definition isspace :: "codepoint \<Rightarrow> bool" where
  \<comment> \<open>the code points \<open>str.isspace\<close> accepts; \<open>str.strip()\<close> removes exactly these\<close>
  "isspace c =
     ((0x09 \<le> c \<and> c \<le> 0x0D) \<or> (0x1C \<le> c \<and> c \<le> 0x20) \<or> c = 0x85 \<or> c = 0xA0 \<or>
      c = 0x1680 \<or> (0x2000 \<le> c \<and> c \<le> 0x200A) \<or> c = 0x2028 \<or> c = 0x2029 \<or>
      c = 0x202F \<or> c = 0x205F \<or> c = 0x3000)"

definition strip :: "str \<Rightarrow> str" where
  \<comment> \<open>\<open>s.strip()\<close>\<close>
  "strip s = rev (dropWhile isspace (rev (dropWhile isspace s)))"

function str_replace :: "str \<Rightarrow> str \<Rightarrow> str \<Rightarrow> str" where
  \<comment> \<open>\<open>s.replace(old, new)\<close>: the occurrences of \<open>old\<close> are taken from the left and do
      not overlap; an empty \<open>old\<close> matches before every character and at the end\<close>
  "str_replace old new [] = (if old = [] then new else [])"
| "str_replace old new (c # cs) =
     (if old = [] then new @ c # str_replace old new cs
      else if prefix old (c # cs) then new @ str_replace old new (drop (length old) (c # cs))
      else c # str_replace old new cs)"
  by pat_completeness auto
termination
  by (relation "measure (\<lambda>(old, new, s). length s)") auto

fun contains :: "str \<Rightarrow> str \<Rightarrow> bool" where
  \<comment> \<open>\<open>contains sub s\<close> is Python's \<open>sub in s\<close>\<close>
  "contains sub [] = (sub = [])"
| "contains sub (c # cs) = (prefix sub (c # cs) \<or> contains sub cs)"

definition startswith :: "str \<Rightarrow> str \<Rightarrow> bool" where
  \<comment> \<open>\<open>s.startswith(p)\<close>\<close>
  "startswith s p = prefix p s"

definition endswith :: "str \<Rightarrow> str \<Rightarrow> bool" where
  \<comment> \<open>\<open>s.endswith(p)\<close>\<close>
  "endswith s p = suffix p s"

fun join :: "str \<Rightarrow> str list \<Rightarrow> str" where
  \<comment> \<open>\<open>sep.join(xs)\<close>\<close>
  "join sep [] = []"
| "join sep [x] = x"
| "join sep (x # y # ys) = x @ sep @ join sep (y # ys)"

fun split_acc :: "codepoint \<Rightarrow> str \<Rightarrow> str \<Rightarrow> str list" where
  \<comment> \<open>the scan of \<open>s.split(d)\<close>: \<open>cur\<close> is the field being read, reversed\<close>
  "split_acc d cur [] = [rev cur]"
| "split_acc d cur (c # cs) =
     (if c = d then rev cur # split_acc d [] cs else split_acc d (c # cur) cs)"

definition str_split :: "str \<Rightarrow> codepoint \<Rightarrow> str list" where
  \<comment> \<open>\<open>s.split(d)\<close> for a one-character delimiter; the empty string gives one empty field\<close>
  "str_split s d = split_acc d [] s"

definition slice_to :: "'a list \<Rightarrow> int \<Rightarrow> 'a list" where
  \<comment> \<open>\<open>xs[:n]\<close>: a negative \<open>n\<close> counts from the end\<close>
  "slice_to xs n = (if n < 0 then take (nat (int (length xs) + n)) xs else take (nat n) xs)"

section \<open>Text cleaning (\<open>rag_pipeline.py\<close>)\<close>

definition WEIRD_CHARS :: "str list" where
  "WEIRD_CHARS =
     [[0xE924], [0xE928], [0xE91F], [0xE91E], [0xE931], [0xE910], [0xE918], [0xE92E],
      [0xE927], [0xE92B], [0xE902], [0xE906], [0xE92C]]"

lemma lit_sp [simp]: "lit '' '' = [32]"
  by (simp add: lit_def)

lemma lit_dsp [simp]: "lit ''  '' = [32, 32]"
  by (simp add: lit_def)

lemma length_replace_dsp_le: "length (str_replace [32, 32] [32] t) \<le> length t"
  by (induction "[32::nat, 32]" "[32::nat]" t rule: str_replace.induct) auto

lemma length_replace_dsp_less:
  "contains [32, 32] t \<Longrightarrow> length (str_replace [32, 32] [32] t) < length t"
proof (induction "[32::nat, 32]" "[32::nat]" t rule: str_replace.induct)
  case 1
  then show ?case by simp
next
  case (2 c cs)
  show ?case
  proof (cases "prefix [32, 32] (c # cs)")
    case True
    then obtain r where "c = 32" "cs = 32 # r" by (auto simp: prefix_def)
    then show ?thesis using length_replace_dsp_le [of r] by simp
  next
    case False
    then show ?thesis using 2 by auto
  qed
qed

function collapse_spaces :: "str \<Rightarrow> str" where
  \<comment> \<open>\<open>while "  " in text: text = text.replace("  ", " ")\<close>\<close>
  "collapse_spaces text =
     (if contains (lit ''  '') text then collapse_spaces (str_replace (lit ''  '') (lit '' '') text)
      else text)"
  by pat_completeness auto
termination
  by (relation "measure length") (simp_all add: length_replace_dsp_less)

declare collapse_spaces.simps [simp del]

definition clean_text :: "str \<Rightarrow> str" where
  "clean_text text =
     (if text = [] then []
      else let text = str_replace [0x0A] (lit '' '') (str_replace [0x0D] (lit '' '') text);
               text = foldl (\<lambda>t ch. str_replace ch (lit '' '') t) text WEIRD_CHARS;
               text = collapse_spaces text
           in strip text)"

section \<open>Sentences and summaries (\<open>rag_pipeline.py\<close>)\<close>

text \<open>
  \<open>str.lower\<close> is the Unicode lower-casing of the Python runtime. The functions that call
  it take it as the parameter \<open>lower\<close>, and the theorems hold for every such function.
  \<open>lower_ascii\<close> is its restriction to the ASCII letters, on which examples are run.
\<close>

definition lower_ascii :: "str \<Rightarrow> str" where
  "lower_ascii s = map (\<lambda>c. if 0x41 \<le> c \<and> c \<le> 0x5A then c + 0x20 else c) s"

definition UNWANTED_PATTERNS :: "str list" where
  "UNWANTED_PATTERNS =
     [lit ''Lire aussi'',
      lit ''Cet article vous a-t-il '' @ [0xE9] @ lit ''t'' @ [0xE9] @ lit '' utile'',
      lit ''Assur'' @ [0xE9] @ lit '' Entreprise Professionnel de sant'' @ [0xE9],
      lit ''Sources'' @ [0xE924],
      lit ''Sites utiles'',
      lit ''Oui Non'',
      lit ''Copier le lien'']"

definition BIBLIO_PATTERNS :: "str list" where
  "BIBLIO_PATTERNS =
     [lit ''sant'' @ [0xE9] @ lit '' publique france'',
      lit ''consult'' @ [0xE9] @ lit '' le'',
      lit ''site internet'',
      lit ''saint-maurice'',
      lit ''document de r'' @ [0xE9] @ lit ''f'' @ [0xE9] @ lit ''rence'',
      lit ''pdf ,'']"

definition MONTHS :: "str list" where
  "MONTHS =
     [lit ''janvier'', lit ''f'' @ [0xE9] @ lit ''vrier'', lit ''fevrier'', lit ''mars'',
      lit ''avril'', lit ''mai'', lit ''juin'', lit ''juillet'', lit ''ao'' @ [0xFB] @ lit ''t'',
      lit ''aout'', lit ''septembre'', lit ''octobre'', lit ''novembre'',
      lit ''d'' @ [0xE9] @ lit ''cembre'', lit ''decembre'']"

fun split_loop :: "str list \<Rightarrow> str list" where
  \<comment> \<open>the loop of \<open>_split_sentences\<close> over \<open>parts\<close>\<close>
  "split_loop [] = []"
| "split_loop (p # parts) =
     (let s = strip p in if length s > 0 then s # split_loop parts else split_loop parts)"

definition split_sentences :: "str \<Rightarrow> str list" where
  "split_sentences text_in =
     (let cleaned = clean_text text_in; parts = str_split cleaned 0x2E in split_loop parts)"

fun filter_sentences :: "(str \<Rightarrow> str) \<Rightarrow> str list \<Rightarrow> str list" where
  "filter_sentences lower [] = []"
| "filter_sentences lower (s # sentences) =
     (let s_clean = strip s; s_lower = lower s_clean in
      if length s_clean < 30 then filter_sentences lower sentences
      else if list_ex (\<lambda>p. contains (lower p) s_lower) UNWANTED_PATTERNS
        then filter_sentences lower sentences
      else if list_ex (\<lambda>p. contains p s_lower) BIBLIO_PATTERNS
        then filter_sentences lower sentences
      else if list_ex (\<lambda>m. startswith s_lower m) MONTHS
        then filter_sentences lower sentences
      else s_clean # filter_sentences lower sentences)"

definition summarize_snippet :: "(str \<Rightarrow> str) \<Rightarrow> str \<Rightarrow> int \<Rightarrow> str" where
  "summarize_snippet lower text_in max_sentences =
     (let sentences = split_sentences text_in;
          sentences = filter_sentences lower sentences
      in if sentences = [] then []
         else let kept = slice_to sentences max_sentences;
                  summary = strip (join (lit ''. '') kept)
              in if \<not> endswith summary (lit ''.'') then summary @ lit ''.'' else summary)"

fun merge_loop :: "int \<Rightarrow> str list \<Rightarrow> int \<Rightarrow> str list \<Rightarrow> str list" where
  \<comment> \<open>the loop of \<open>_merge_snippets\<close>: \<open>break\<close> returns what was merged so far\<close>
  "merge_loop max_chars merged current_len [] = merged"
| "merge_loop max_chars merged current_len (s # snippets) =
     (let s' = strip s in
      if s' = [] then merge_loop max_chars merged current_len snippets
      else if current_len + int (length s') + 1 > max_chars then merged
      else merge_loop max_chars (merged @ [s']) (current_len + int (length s') + 1) snippets)"

definition merge_snippets :: "str list \<Rightarrow> int \<Rightarrow> str" where
  "merge_snippets snippets max_chars =
     (let merged = merge_loop max_chars [] 0 snippets in strip (join (lit '' '') merged))"

section \<open>Topic detection (\<open>rag_pipeline.py\<close>)\<close>

definition get_topic_keywords :: "(str \<Rightarrow> str) \<Rightarrow> str \<Rightarrow> str list" where
  "get_topic_keywords lower query =
     (let q = lower query in
      if contains (lit ''otite'') q then [lit ''otite'']
      else if contains (lit ''rhinopharyng'') q then [lit ''rhinopharyngite'']
      else if contains (lit ''angine'') q then [lit ''angine'']
      else if contains (lit ''fi'' @ [0xE8] @ lit ''vre'') q \<or> contains (lit ''fievre'') q
        then [lit ''fievre'']
      else if contains (lit ''gastro'') q then [lit ''gastro'']
      else if contains (lit ''bronchiolite'') q then [lit ''bronchiolite'']
      else if contains (lit ''hypertension'') q \<or> contains (lit ''tension'') q
        then [lit ''hypertension'']
      else if contains (lit ''diab'' @ [0xE8] @ lit ''te'') q \<or> contains (lit ''diabete'') q
        then [lit ''diabete'']
      else if contains (lit ''migraine'') q then [lit ''migraine'']
      else if contains (lit ''grippe'') q then [lit ''grippe'']
      else if contains (lit ''covid'') q then [lit ''covid'']
      else if contains (lit ''asthme'') q then [lit ''asthme'']
      else if contains (lit ''allerg'') q then [lit ''allergie'', lit ''allergies'']
      else if contains (lit ''cholest'' @ [0xE9] @ lit ''rol'') q \<or> contains (lit ''cholesterol'') q
        then [lit ''cholesterol'']
      else [])"

text \<open>
  A retrieval result and a metadata record are dictionaries with the keys \<open>filename\<close>,
  \<open>text\<close>, \<open>chunk_index\<close> and, for a result, \<open>score\<close>. The code reads them with
  \<open>r.get(key, default)\<close>, so every key may be absent.
\<close>

record entry =
  e_filename :: "str option"
  e_text :: "str option"
  e_score :: "real option"
  e_chunk_index :: "int option"

definition get_or :: "'a option \<Rightarrow> 'a \<Rightarrow> 'a" where
  \<comment> \<open>\<open>r.get(key, default)\<close> on the field of that key\<close>
  "get_or v d = (case v of None \<Rightarrow> d | Some x \<Rightarrow> x)"

fun topic_loop :: "(str \<Rightarrow> str) \<Rightarrow> str list \<Rightarrow> entry list \<Rightarrow> entry list \<Rightarrow> entry list" where
  \<comment> \<open>the loop of \<open>_filter_results_by_topic\<close>\<close>
  "topic_loop lower topic_keywords filtered [] = filtered"
| "topic_loop lower topic_keywords filtered (r # results) =
     (let filename = get_or (e_filename r) [];
          filename_lower = lower filename
      in if list_ex (\<lambda>kw. contains kw filename_lower) topic_keywords
         then topic_loop lower topic_keywords (filtered @ [r]) results
         else topic_loop lower topic_keywords filtered results)"

definition filter_results_by_topic :: "(str \<Rightarrow> str) \<Rightarrow> entry list \<Rightarrow> str \<Rightarrow> entry list" where
  "filter_results_by_topic lower results query =
     (let topic_keywords = get_topic_keywords lower query in
      if topic_keywords = [] then results
      else let filtered = topic_loop lower topic_keywords [] results
           in if filtered \<noteq> [] then filtered else results)"

section \<open>The answer composer (\<open>rag_pipeline.py\<close>)\<close>

record source =
  src_filename :: str
  src_score :: real
  src_chunk_index :: int
  src_snippet :: str

record answer_result =
  question :: str
  answer :: str
  sources :: "source list"

definition basename :: "str \<Rightarrow> str" where
  \<comment> \<open>\<open>os.path.basename\<close> of \<open>posixpath\<close>: what follows the last \<open>/\<close>\<close>
  "basename p = rev (takeWhile (\<lambda>c. c \<noteq> 0x2F) (rev p))"

definition NO_INFORMATION :: str where
  "NO_INFORMATION =
     lit ''Je n'' @ [0x2019] @ lit ''ai trouv'' @ [0xE9] @
     lit '' aucune information pertinente sur ce sujet dans les documents charg'' @ [0xE9] @
     lit ''s. Merci de v'' @ [0xE9] @
     lit ''rifier que les brochures PDF contiennent bien des informations sur cette question.''"

definition NOT_REFORMULATED :: str where
  "NOT_REFORMULATED =
     lit ''Les documents contiennent des informations, mais elles n'' @ [0x2019] @
     lit ''ont pas pu '' @ [0xEA] @ lit ''tre reformul'' @ [0xE9] @
     lit ''es correctement. Merci de reformuler votre question ou de consulter un professionnel de sant'' @
     [0xE9] @ lit ''.''"

definition ANSWER_INTRO :: str where
  "ANSWER_INTRO =
     lit ''Voici une r'' @ [0xE9] @ lit ''ponse bas'' @ [0xE9] @
     lit ''e sur les brochures disponibles concernant votre question :'' @ [10, 10]"

definition ANSWER_DISCLAIMER :: str where
  "ANSWER_DISCLAIMER =
     [10, 10] @ lit ''Ce r'' @ [0xE9] @ lit ''sum'' @ [0xE9] @ lit '' est directement '' @ [0xE9] @
     lit ''labor'' @ [0xE9] @ lit '' '' @ [0xE0] @
     lit '' partir des brochures. Il fournit une information g'' @ [0xE9] @ lit ''n'' @ [0xE9] @
     lit ''rale et ne remplace **en aucun cas** l'' @ [0x2019] @ lit ''avis d'' @ [0x2019] @
     lit ''un professionnel de sant'' @ [0xE9] @ lit ''.''"

definition snippet_of :: "(str \<Rightarrow> str) \<Rightarrow> int \<Rightarrow> entry \<Rightarrow> str" where
  \<comment> \<open>the value of \<open>summarized\<close> after the fallback, for one result \<open>r\<close>\<close>
  "snippet_of lower max_chunk_chars r =
     (let raw_text = slice_to (get_or (e_text r) []) max_chunk_chars;
          summarized = summarize_snippet lower raw_text 3
      in if summarized = [] then clean_text raw_text else summarized)"

fun sources_loop ::
  "(str \<Rightarrow> str) \<Rightarrow> int \<Rightarrow> str list \<Rightarrow> source list \<Rightarrow> entry list \<Rightarrow> str list \<times> source list"
where
  \<comment> \<open>the loop of step 3, on \<open>snippets_for_answer\<close> and \<open>sources_list\<close>\<close>
  "sources_loop lower max_chunk_chars snippets_for_answer sources_list [] =
     (snippets_for_answer, sources_list)"
| "sources_loop lower max_chunk_chars snippets_for_answer sources_list (r # results) =
     (let summarized = snippet_of lower max_chunk_chars r;
          filename = basename (get_or (e_filename r) (lit ''document inconnu''));
          snippets_for_answer' =
            (if summarized \<noteq> [] then snippets_for_answer @ [summarized] else snippets_for_answer);
          sources_list' = sources_list @
            [\<lparr>src_filename = filename,
              src_score = get_or (e_score r) 0,
              src_chunk_index = get_or (e_chunk_index r) (- 1),
              src_snippet = summarized\<rparr>]
      in sources_loop lower max_chunk_chars snippets_for_answer' sources_list' results)"

definition answer_question_extractive ::
  "(str \<Rightarrow> str) \<Rightarrow> (str \<Rightarrow> 'emb \<Rightarrow> entry list \<Rightarrow> int \<Rightarrow> entry list) \<Rightarrow>
   str \<Rightarrow> 'emb \<Rightarrow> entry list \<Rightarrow> int \<Rightarrow> int \<Rightarrow> answer_result"
where
  \<comment> \<open>\<open>retrieve_top_k\<close> is the retriever of \<open>src/retriever.py\<close>, a parameter here\<close>
  "answer_question_extractive lower retrieve_top_k query doc_embeddings metadata k max_chunk_chars =
     (let results = retrieve_top_k query doc_embeddings metadata k in
      if results = [] then \<lparr>question = query, answer = NO_INFORMATION, sources = []\<rparr>
      else
        let results' = filter_results_by_topic lower results query;
            (snippets_for_answer, sources_list) = sources_loop lower max_chunk_chars [] [] results';
            combined_text = merge_snippets snippets_for_answer 900;
            combined_text' = (if combined_text = [] then NOT_REFORMULATED else combined_text);
            answer_text = ANSWER_INTRO @ combined_text' @ ANSWER_DISCLAIMER
        in \<lparr>question = query, answer = answer_text, sources = sources_list\<rparr>)"

section \<open>The offline build (\<open>build_vector_store.py\<close>)\<close>

datatype build_error = FileNotFoundError

fun clean_filenames :: "entry list \<Rightarrow> entry list" where
  \<comment> \<open>step 5: \<open>if "filename" in m and m["filename"]: m["filename"] = basename(m["filename"])\<close>\<close>
  "clean_filenames [] = []"
| "clean_filenames (m # metadata) =
     (case e_filename m of
        Some f \<Rightarrow> if f \<noteq> [] then m\<lparr>e_filename := Some (basename f)\<rparr> else m
      | None \<Rightarrow> m) # clean_filenames metadata"

definition main :: "(str \<Rightarrow> str) \<Rightarrow> bool \<Rightarrow> str list \<Rightarrow> (str list \<Rightarrow> 'emb \<times> entry list) \<Rightarrow>
    build_error + 'emb \<times> entry list" where
  \<comment> \<open>\<open>isdir\<close>: the brochures folder exists; \<open>globbed\<close>: the paths \<open>glob\<close> finds in it;
      \<open>build_index\<close>: steps 1 to 4 (extraction, chunking, embedding), whose modules are
      parameters here. The result is the pair written to \<open>embeddings.npy\<close> and
      \<open>metadata.json\<close>.\<close>
  "main lower isdir globbed build_index =
     (if \<not> isdir then Inl FileNotFoundError
      else
        let file_paths =
              filter (\<lambda>p. endswith (lower p) (lit ''.pdf'') \<or> endswith (lower p) (lit ''.txt'')) globbed
        in if file_paths = [] then Inl FileNotFoundError
           else let (embeddings, metadata) = build_index file_paths
                in Inr (embeddings, clean_filenames metadata))"

section \<open>Loading the vector store (\<open>app.py\<close>)\<close>

datatype 'a stored = Missing | Unreadable | Stored 'a
  \<comment> \<open>a file of the vector store: absent, present but raising when loaded, or loaded\<close>

datatype notice = Store_not_found | Load_failed
  \<comment> \<open>the two \<open>st.error\<close> messages of \<open>load_vector_store\<close>\<close>

record session_state =
  index_ready :: bool
  embeddings :: "real list list option"
  metadata :: "entry list option"

definition load_vector_store ::
  "real list list stored \<Rightarrow> entry list stored \<Rightarrow> session_state \<Rightarrow> bool \<times> notice list \<times> session_state"
where
  \<comment> \<open>returns the result, the errors shown and the session state\<close>
  "load_vector_store emb_file meta_file st =
     (if emb_file = Missing \<or> meta_file = Missing then (False, [Store_not_found], st)
      else case (emb_file, meta_file) of
        (Stored emb, Stored meta) \<Rightarrow>
          (True, [], st\<lparr>embeddings := Some emb, metadata := Some meta, index_ready := True\<rparr>)
      | _ \<Rightarrow> (False, [Load_failed], st))"

section \<open>Specification-level definitions\<close>

text \<open>
  The text normaliser as one pass: \<open>blank\<close> is what becomes of one character (a carriage
  return, a newline and every character of \<open>WEIRD_CHARS\<close> become a space), \<open>squeeze\<close>
  keeps one space of every run of spaces.
\<close>

definition blank :: "codepoint \<Rightarrow> codepoint" where
  "blank c = (if c = 0x0D \<or> c = 0x0A \<or> c \<in> set (concat WEIRD_CHARS) then 0x20 else c)"

fun squeeze :: "str \<Rightarrow> str" where
  "squeeze (a # b # r) = (if a = 0x20 \<and> b = 0x20 then squeeze (b # r) else a # squeeze (b # r))"
| "squeeze r = r"

definition clean_spec :: "str \<Rightarrow> str" where
  "clean_spec x = strip (squeeze (map blank x))"

text \<open>
  The snippets the merger considers are the trimmed inputs that are not empty. The loop
  charges each of them its length and one separator.
\<close>

definition trimmed :: "str list \<Rightarrow> str list" where
  "trimmed snippets = filter (\<lambda>s. s \<noteq> []) (map strip snippets)"

definition cost :: "str list \<Rightarrow> int" where
  "cost xs = (\<Sum>s\<leftarrow>xs. int (length s) + 1)"

definition is_trimmed :: "str \<Rightarrow> bool" where
  "is_trimmed s = (s \<noteq> [] \<and> \<not> isspace (hd s) \<and> \<not> isspace (last s))"

text \<open>
  Topic detection as a table: the rules in priority order, each a list of trigger
  substrings and the tags returned when one of them occurs in the lower-cased query.
\<close>

definition topic_rules :: "(str list \<times> str list) list" where
  "topic_rules =
     [([lit ''otite''], [lit ''otite'']),
      ([lit ''rhinopharyng''], [lit ''rhinopharyngite'']),
      ([lit ''angine''], [lit ''angine'']),
      ([lit ''fi'' @ [0xE8] @ lit ''vre'', lit ''fievre''], [lit ''fievre'']),
      ([lit ''gastro''], [lit ''gastro'']),
      ([lit ''bronchiolite''], [lit ''bronchiolite'']),
      ([lit ''hypertension'', lit ''tension''], [lit ''hypertension'']),
      ([lit ''diab'' @ [0xE8] @ lit ''te'', lit ''diabete''], [lit ''diabete'']),
      ([lit ''migraine''], [lit ''migraine'']),
      ([lit ''grippe''], [lit ''grippe'']),
      ([lit ''covid''], [lit ''covid'']),
      ([lit ''asthme''], [lit ''asthme'']),
      ([lit ''allerg''], [lit ''allergie'', lit ''allergies'']),
      ([lit ''cholest'' @ [0xE9] @ lit ''rol'', lit ''cholesterol''], [lit ''cholesterol''])]"

definition rule_matches :: "str \<Rightarrow> str list \<times> str list \<Rightarrow> bool" where
  "rule_matches q rule = list_ex (\<lambda>trigger. contains trigger q) (fst rule)"

definition first_match :: "str \<Rightarrow> (str list \<times> str list) list \<Rightarrow> str list" where
  "first_match q rules = (case find (rule_matches q) rules of None \<Rightarrow> [] | Some rule \<Rightarrow> snd rule)"

text \<open>
  The summary in the words of the specification: the first \<open>max_sentences\<close> sentences
  that survive the filter, joined with a period and a space, closed by a period.
\<close>

definition summarize_spec :: "(str \<Rightarrow> str) \<Rightarrow> str \<Rightarrow> nat \<Rightarrow> str" where
  "summarize_spec lower raw_text max_sentences =
     (let survivors = filter_sentences lower (split_sentences raw_text) in
      if survivors = [] then []
      else let joined = join (lit ''. '') (take max_sentences survivors)
           in if endswith joined (lit ''.'') then joined else joined @ lit ''.'')"

text \<open>
  The Source record the composer builds for one retained result.
\<close>

definition source_of :: "(str \<Rightarrow> str) \<Rightarrow> int \<Rightarrow> entry \<Rightarrow> source" where
  "source_of lower max_chunk_chars r =
     \<lparr>src_filename = basename (get_or (e_filename r) (lit ''document inconnu'')),
      src_score = get_or (e_score r) 0,
      src_chunk_index = get_or (e_chunk_index r) (- 1),
      src_snippet = snippet_of lower max_chunk_chars r\<rparr>"

text \<open>
  A filename has a directory component when it contains the separator \<open>/\<close>.
\<close>

definition has_directory :: "str \<Rightarrow> bool" where
  "has_directory p = (0x2F \<in> set p)"

text \<open>
  The consistency the index should have: as many vector rows as metadata records.
\<close>

definition consistent :: "session_state \<Rightarrow> bool" where
  "consistent st =
     (case (embeddings st, metadata st) of
        (Some emb, Some meta) \<Rightarrow> length emb = length meta
      | _ \<Rightarrow> False)"

section \<open>Strings: helper lemmas\<close>

lemma contains_sublist: "contains sub s = sublist sub s"
  by (induction s) (simp_all add: sublist_Cons_right)

lemma replace_single: "str_replace [a] [b] s = map (\<lambda>c. if c = a then b else c) s"
  by (induction s) auto

lemma foldl_replace_singles:
  "foldl (\<lambda>t ch. str_replace ch [32] t) t (map (\<lambda>c. [c]) cs) =
   map (\<lambda>c. if c \<in> set cs then 32 else c) t"
  by (induction cs arbitrary: t) (auto simp: replace_single)

lemma dropWhile_hd: "xs = [] \<or> \<not> P (hd xs) \<Longrightarrow> dropWhile P xs = xs"
  by (cases xs) auto

lemma prefix_single: "prefix [a] xs \<longleftrightarrow> xs \<noteq> [] \<and> hd xs = a"
  by (cases xs) auto

lemma strip_Nil [simp]: "strip [] = []"
  by (simp add: strip_def)

lemma strip_sublist: "sublist (strip s) s"
proof -
  have "sublist (rev (dropWhile isspace (rev (dropWhile isspace s)))) (dropWhile isspace s)"
    by (simp add: sublist_rev_left)
  also have "sublist (dropWhile isspace s) s" by simp
  finally show ?thesis by (simp add: strip_def)
qed

lemma strip_ends:
  assumes "strip s \<noteq> []"
  shows "\<not> isspace (hd (strip s))" and "\<not> isspace (last (strip s))"
proof -
  let ?a = "dropWhile isspace s"
  let ?b = "dropWhile isspace (rev ?a)"
  from assms have b: "?b \<noteq> []" by (simp add: strip_def)
  then have "\<not> isspace (hd ?b)" by (rule hd_dropWhile)
  then show "\<not> isspace (last (strip s))" using b by (simp add: strip_def last_rev)
  from b have a: "?a \<noteq> []" by (metis dropWhile.simps(1) rev.simps(1))
  then have ha: "\<not> isspace (hd ?a)" by (rule hd_dropWhile)
  have "rev ?a = takeWhile isspace (rev ?a) @ ?b" by simp
  then have "?a = rev ?b @ rev (takeWhile isspace (rev ?a))"
    by (metis rev_append rev_rev_ident)
  then have "hd ?a = hd (rev ?b)" using b by (metis hd_append2 rev_is_Nil_conv)
  with ha show "\<not> isspace (hd (strip s))" by (simp add: strip_def)
qed

lemma strip_id: "s = [] \<or> (\<not> isspace (hd s) \<and> \<not> isspace (last s)) \<Longrightarrow> strip s = s"
proof (cases s)
  case Nil
  then show ?thesis by simp
next
  case (Cons c cs)
  assume "s = [] \<or> (\<not> isspace (hd s) \<and> \<not> isspace (last s))"
  with Cons have h: "\<not> isspace c" and l: "\<not> isspace (last s)" by auto
  from h Cons have "dropWhile isspace s = s" by simp
  moreover have "hd (rev s) = last s" by (rule hd_rev)
  with l have "dropWhile isspace (rev s) = rev s" by (intro dropWhile_hd) simp
  ultimately show ?thesis by (simp add: strip_def)
qed

lemma strip_strip [simp]: "strip (strip s) = strip s"
proof (cases "strip s = []")
  case True
  then show ?thesis by simp
next
  case False
  then show ?thesis using strip_ends [of s] by (intro strip_id) simp
qed

section \<open>Text cleaning: the loop as one pass\<close>

lemma squeeze_Nil_iff [simp]: "squeeze t = [] \<longleftrightarrow> t = []"
  by (induction t rule: squeeze.induct) auto

lemma hd_squeeze [simp]: "hd (squeeze t) = hd t"
  by (induction t rule: squeeze.induct) auto

lemma squeeze_Cons:
  "squeeze (a # t) =
     (if a = 32 \<and> squeeze t \<noteq> [] \<and> hd (squeeze t) = 32 then squeeze t else a # squeeze t)"
  by (cases t) auto

lemma squeeze_cong: "squeeze t = squeeze t' \<Longrightarrow> squeeze (a # t) = squeeze (a # t')"
  by (simp only: squeeze_Cons)

lemma squeeze_replace: "squeeze (str_replace [32, 32] [32] t) = squeeze t"
proof (induction "[32::nat, 32]" "[32::nat]" t rule: str_replace.induct)
  case 1
  then show ?case by simp
next
  case (2 c cs)
  show ?case
  proof (cases "prefix [32, 32] (c # cs)")
    case True
    then obtain r where r: "c = 32" "cs = 32 # r" by (auto simp: prefix_def)
    with 2 have "squeeze (str_replace [32, 32] [32] r) = squeeze r" by simp
    then have "squeeze (32 # str_replace [32, 32] [32] r) = squeeze (32 # r)"
      by (rule squeeze_cong)
    with r show ?thesis by simp
  next
    case False
    with 2 have "squeeze (str_replace [32, 32] [32] cs) = squeeze cs" by simp
    then have "squeeze (c # str_replace [32, 32] [32] cs) = squeeze (c # cs)"
      by (rule squeeze_cong)
    with False show ?thesis by auto
  qed
qed

lemma squeeze_id: "\<not> contains [32, 32] t \<Longrightarrow> squeeze t = t"
  by (induction t rule: squeeze.induct) auto

lemma collapse_spaces_squeeze: "collapse_spaces t = squeeze t"
proof (induction t rule: collapse_spaces.induct)
  case (1 t)
  show ?case
  proof (cases "contains [32, 32] t")
    case True
    with 1 show ?thesis by (simp add: collapse_spaces.simps [of t] squeeze_replace)
  next
    case False
    then show ?thesis by (simp add: collapse_spaces.simps [of t] squeeze_id)
  qed
qed

lemma WEIRD_CHARS_singles: "WEIRD_CHARS = map (\<lambda>c. [c]) (concat WEIRD_CHARS)"
  by (simp add: WEIRD_CHARS_def)

lemma subst_chain:
  "map (\<lambda>c. if c \<in> set (concat WEIRD_CHARS) then 32 else c)
     (map (\<lambda>c. if c = 0x0A then 32 else c) (map (\<lambda>c. if c = 0x0D then 32 else c) x)) =
   map blank x"
  by (simp add: WEIRD_CHARS_def blank_def)

lemma clean_text_one_pass: "clean_text x = strip (squeeze (map blank x))"
proof (cases "x = []")
  case True
  then show ?thesis by (simp add: clean_text_def)
next
  case False
  have "foldl (\<lambda>t ch. str_replace ch [32] t) t WEIRD_CHARS =
        map (\<lambda>c. if c \<in> set (concat WEIRD_CHARS) then 32 else c) t" for t
    using foldl_replace_singles [of t "concat WEIRD_CHARS"] WEIRD_CHARS_singles by simp
  with False show ?thesis
    unfolding clean_text_def Let_def
    by (simp only: replace_single collapse_spaces_squeeze lit_sp subst_chain if_False)
qed

lemma squeeze_no_dsp: "\<not> sublist [32, 32] (squeeze t)"
  by (induction t rule: squeeze.induct) (auto simp: sublist_Cons_right prefix_single)

lemma set_squeeze: "set (squeeze t) \<subseteq> set t"
  by (induction t rule: squeeze.induct) auto

lemma blank_32: "blank 32 = 32"
  by (simp add: blank_def)

lemma blank_cases: "blank c = 32 \<or> blank c = c"
  by (simp add: blank_def)

lemma blank_blank: "blank (blank c) = blank c"
  using blank_cases [of c] blank_32 by auto

lemma one_pass_fixed:
  assumes "y = strip (squeeze (map blank x))"
  shows "strip (squeeze (map blank y)) = y"
proof -
  let ?z = "squeeze (map blank x)"
  have sub: "sublist y ?z" unfolding assms by (rule strip_sublist)
  then have "set y \<subseteq> set ?z" by (rule set_mono_sublist)
  also have "\<dots> \<subseteq> set (map blank x)" by (rule set_squeeze)
  finally have "set y \<subseteq> range blank" by auto
  then have "map blank y = y" by (intro map_idI) (auto simp: blank_blank)
  moreover have "squeeze y = y"
  proof (rule squeeze_id)
    show "\<not> contains [32, 32] y"
      using sub squeeze_no_dsp [of "map blank x"] sublist_order.order_trans
      unfolding contains_sublist by blast
  qed
  moreover have "strip y = y" by (simp add: assms)
  ultimately show ?thesis by simp
qed

lemmas eval_str = lit_def strip_def isspace_def blank_def WEIRD_CHARS_def

section \<open>Claims on text cleaning\<close>

text \<open>
  Claim C5, as stated, fails: a character of the denylist is not removed but replaced by
  a space, so between two letters it leaves the letters one space apart, not adjacent.
\<close>

theorem clean_text_denylist_counterexample:
  "clean_text (lit ''a'' @ [0xE924] @ lit ''b'') = lit ''a b'' \<and>
   clean_text (lit ''a'' @ [0xE924] @ lit ''b'') \<noteq> lit ''ab''"
  by (simp add: clean_text_one_pass eval_str)

text \<open>
  Claim C5, amended: for every input string, \<open>clean_text\<close> turns every carriage return,
  newline and denylist character into a space (\<open>blank\<close>), then keeps one space of every
  run of two or more spaces (\<open>squeeze\<close>), then trims leading and trailing whitespace.
\<close>

theorem clean_text_refines_spec: "clean_text x = clean_spec x"
  by (simp add: clean_text_one_pass clean_spec_def)

theorem clean_text_refines_spec_witness:
  "clean_text (lit ''  a'' @ [0xE924, 13, 10, 9] @ lit ''b  c '' @ [9]) =
     clean_spec (lit ''  a'' @ [0xE924, 13, 10, 9] @ lit ''b  c '' @ [9]) \<and>
   clean_spec (lit ''  a'' @ [0xE924, 13, 10, 9] @ lit ''b  c '' @ [9]) =
     lit ''a '' @ [9] @ lit ''b c''"
proof (rule conjI)
  show "clean_text (lit ''  a'' @ [0xE924, 13, 10, 9] @ lit ''b  c '' @ [9]) =
        clean_spec (lit ''  a'' @ [0xE924, 13, 10, 9] @ lit ''b  c '' @ [9])"
    by (rule clean_text_refines_spec)
  show "clean_spec (lit ''  a'' @ [0xE924, 13, 10, 9] @ lit ''b  c '' @ [9]) =
        lit ''a '' @ [9] @ lit ''b c''"
    by (simp add: clean_spec_def eval_str)
qed

text \<open>
  Claim C6: \<open>clean_text\<close> is idempotent: cleaning a cleaned string changes nothing.
\<close>

theorem clean_text_idempotent: "clean_text (clean_text x) = clean_text x"
  by (simp add: clean_text_one_pass one_pass_fixed)

theorem clean_text_idempotent_witness:
  "clean_text (clean_text (lit '' a  b'' @ [0xE924, 10])) = clean_text (lit '' a  b'' @ [0xE924, 10]) \<and>
   clean_text (lit '' a  b'' @ [0xE924, 10]) = lit ''a b''"
proof (rule conjI)
  show "clean_text (clean_text (lit '' a  b'' @ [0xE924, 10])) =
        clean_text (lit '' a  b'' @ [0xE924, 10])"
    by (rule clean_text_idempotent)
  show "clean_text (lit '' a  b'' @ [0xE924, 10]) = lit ''a b''"
    by (simp add: clean_text_one_pass eval_str)
qed

section \<open>Merging snippets under a budget\<close>

lemma is_trimmed_strip: "strip s \<noteq> [] \<Longrightarrow> is_trimmed (strip s)"
  using strip_ends [of s] by (simp add: is_trimmed_def)

lemma join_ends:
  assumes "xs \<noteq> []" and "\<forall>x\<in>set xs. x \<noteq> []"
  shows "join sep xs \<noteq> []" and "hd (join sep xs) = hd (hd xs)"
    and "last (join sep xs) = last (last xs)"
  using assms by (induction sep xs rule: join.induct) auto

lemma strip_join:
  assumes "\<forall>x\<in>set xs. is_trimmed x"
  shows "strip (join sep xs) = join sep xs"
proof (cases "xs = []")
  case True
  then show ?thesis by simp
next
  case False
  from assms have ne: "\<forall>x\<in>set xs. x \<noteq> []" by (simp add: is_trimmed_def)
  from False assms have "is_trimmed (hd xs)" "is_trimmed (last xs)" by simp_all
  then have "\<not> isspace (hd (join sep xs))" "\<not> isspace (last (join sep xs))"
    using join_ends(2,3) [OF False ne] by (simp_all add: is_trimmed_def)
  then show ?thesis by (intro strip_id) simp
qed

lemma trimmed_all: "\<forall>x\<in>set (trimmed snippets). is_trimmed x"
  by (auto simp: trimmed_def is_trimmed_strip)

lemma length_join_cost: "xs \<noteq> [] \<Longrightarrow> int (length (join [c] xs)) + 1 = cost xs"
  by (induction "[c]" xs rule: join.induct) (simp_all add: cost_def)

lemma cost_nonneg: "0 \<le> cost xs"
  by (induction xs) (simp_all add: cost_def)

lemma trimmed_Cons:
  "trimmed (s # snippets) = (if strip s = [] then trimmed snippets else strip s # trimmed snippets)"
  by (simp add: trimmed_def)

lemma merge_loop_prefix:
  "\<exists>k\<le>length (trimmed snippets).
     merge_loop m merged cur snippets = merged @ take k (trimmed snippets) \<and>
     (0 < k \<longrightarrow> cur + cost (take k (trimmed snippets)) \<le> m) \<and>
     (k < length (trimmed snippets) \<longrightarrow> m < cur + cost (take (Suc k) (trimmed snippets)))"
proof (induction snippets arbitrary: merged cur)
  case Nil
  then show ?case by (simp add: trimmed_def)
next
  case (Cons s snippets)
  let ?s = "strip s" and ?ss = "trimmed snippets"
  show ?case
  proof (cases "?s = []")
    case True
    with Cons [of merged cur] show ?thesis by (simp add: trimmed_Cons)
  next
    case ne: False
    show ?thesis
    proof (cases "cur + int (length ?s) + 1 > m")
      case True
      with ne show ?thesis
        by (intro exI [of _ 0]) (simp add: trimmed_Cons cost_def)
    next
      case False
      from Cons [of "merged @ [?s]" "cur + int (length ?s) + 1"]
      obtain k where k: "k \<le> length ?ss"
        "merge_loop m (merged @ [?s]) (cur + int (length ?s) + 1) snippets =
           (merged @ [?s]) @ take k ?ss"
        "0 < k \<longrightarrow> cur + int (length ?s) + 1 + cost (take k ?ss) \<le> m"
        "k < length ?ss \<longrightarrow> m < cur + int (length ?s) + 1 + cost (take (Suc k) ?ss)"
        by blast
      have c: "cost (?s # xs) = int (length ?s) + 1 + cost xs" for xs
        by (simp add: cost_def)
      have "cur + cost (take (Suc k) (?s # ?ss)) \<le> m"
        using k(3) False by (cases "k = 0") (simp_all add: c cost_def)
      with k ne False show ?thesis
        by (intro exI [of _ "Suc k"]) (simp add: trimmed_Cons c add.assoc)
    qed
  qed
qed

lemma merge_snippets_prefix:
  "\<exists>k\<le>length (trimmed snippets).
     merge_snippets snippets m = join (lit '' '') (take k (trimmed snippets)) \<and>
     (0 < k \<longrightarrow> int (length (join (lit '' '') (take k (trimmed snippets)))) < m) \<and>
     (k < length (trimmed snippets) \<longrightarrow>
        m \<le> int (length (join (lit '' '') (take (Suc k) (trimmed snippets)))))"
proof -
  let ?ss = "trimmed snippets"
  from merge_loop_prefix [of snippets m "[]" 0]
  obtain k where k: "k \<le> length ?ss" "merge_loop m [] 0 snippets = take k ?ss"
    "0 < k \<longrightarrow> cost (take k ?ss) \<le> m"
    "k < length ?ss \<longrightarrow> m < cost (take (Suc k) ?ss)"
    by auto
  have "\<forall>x\<in>set (take k ?ss). is_trimmed x"
    using trimmed_all [of snippets] by (auto dest: in_set_takeD)
  then have "strip (join [32] (take k ?ss)) = join [32] (take k ?ss)"
    by (rule strip_join)
  with k(2) have 1: "merge_snippets snippets m = join [32] (take k ?ss)"
    by (simp add: merge_snippets_def)
  have 2: "int (length (join [32] (take k ?ss))) < m" if "0 < k"
  proof -
    from that k(1) have "take k ?ss \<noteq> []" by auto
    from length_join_cost [OF this, of 32] k(3) that show ?thesis by simp
  qed
  have 3: "m \<le> int (length (join [32] (take (Suc k) ?ss)))" if "k < length ?ss"
  proof -
    from that have "take (Suc k) ?ss \<noteq> []" by auto
    from length_join_cost [OF this, of 32] k(4) that show ?thesis by simp
  qed
  from k(1) 1 2 3 show ?thesis by (intro exI [of _ k]) simp
qed

section \<open>Claims on the snippet merger\<close>

text \<open>
  Claim C3: for every list of snippets and every character budget \<open>max_chars\<close> (a
  length, passed to the merger as an integer), the merged string is never longer than
  \<open>max_chars\<close>, and it is the single-space join of the first \<open>k\<close> trimmed non-empty
  snippets, so every snippet in the output appears whole.
\<close>

theorem merge_snippets_bounded_whole:
  "length (merge_snippets snippets (int max_chars)) \<le> max_chars \<and>
   (\<exists>k\<le>length (trimmed snippets).
      merge_snippets snippets (int max_chars) = join (lit '' '') (take k (trimmed snippets)))"
proof -
  from merge_snippets_prefix [of snippets "int max_chars"]
  obtain k where k: "k \<le> length (trimmed snippets)"
    "merge_snippets snippets (int max_chars) = join (lit '' '') (take k (trimmed snippets))"
    "0 < k \<longrightarrow> int (length (join (lit '' '') (take k (trimmed snippets)))) < int max_chars"
    by blast
  have "length (merge_snippets snippets (int max_chars)) \<le> max_chars"
    using k(2,3) by (cases "k = 0") simp_all
  with k(1,2) show ?thesis by blast
qed

theorem merge_snippets_bounded_whole_witness:
  "length (merge_snippets [lit '' ab '', lit ''  '', lit ''cde'', lit ''f''] (int 7)) \<le> 7 \<and>
   (\<exists>k\<le>length (trimmed [lit '' ab '', lit ''  '', lit ''cde'', lit ''f'']).
      merge_snippets [lit '' ab '', lit ''  '', lit ''cde'', lit ''f''] (int 7) =
        join (lit '' '') (take k (trimmed [lit '' ab '', lit ''  '', lit ''cde'', lit ''f'']))) \<and>
   merge_snippets [lit '' ab '', lit ''  '', lit ''cde'', lit ''f''] (int 7) = lit ''ab cde''"
proof -
  have e: "merge_snippets [lit '' ab '', lit ''  '', lit ''cde'', lit ''f''] (int 7) = lit ''ab cde''"
    by (simp add: merge_snippets_def eval_str)
  from merge_snippets_bounded_whole [of "[lit '' ab '', lit ''  '', lit ''cde'', lit ''f'']" 7] e
  show ?thesis by blast
qed

text \<open>
  Claim C4, as stated, fails at the boundary: a first snippet of length exactly
  \<open>max_chars\<close> is not appended, since the loop charges one separator for every
  snippet, the first included.
\<close>

theorem merge_snippets_exact_budget_counterexample:
  "int (length (lit ''abc'')) = 3 \<and> merge_snippets [lit ''abc''] 3 = [] \<and>
   merge_snippets [lit ''abc''] 3 \<noteq> lit ''abc''"
  by (simp add: merge_snippets_def eval_str)

text \<open>
  Claim C4, amended: the merger appends the trimmed non-empty snippets in input order,
  separated by a single space, and stops only before an addition that would make the
  accumulated length reach or exceed \<open>max_chars\<close>: the text merged so far is shorter
  than \<open>max_chars\<close>, and the text with the next snippet would not be. In particular a
  first snippet of length exactly \<open>max_chars\<close> is not appended, and a shorter one is.
\<close>

theorem merge_snippets_greedy:
  "(\<exists>k\<le>length (trimmed snippets).
     merge_snippets snippets max_chars = join (lit '' '') (take k (trimmed snippets)) \<and>
     (0 < k \<longrightarrow> int (length (join (lit '' '') (take k (trimmed snippets)))) < max_chars) \<and>
     (k < length (trimmed snippets) \<longrightarrow>
        max_chars \<le> int (length (join (lit '' '') (take (Suc k) (trimmed snippets)))))) \<and>
   (strip s \<noteq> [] \<and> int (length (strip s)) = max_chars \<longrightarrow> merge_snippets [s] max_chars = []) \<and>
   (strip s \<noteq> [] \<and> int (length (strip s)) < max_chars \<longrightarrow> merge_snippets [s] max_chars = strip s)"
proof (intro conjI impI)
  show "\<exists>k\<le>length (trimmed snippets).
     merge_snippets snippets max_chars = join (lit '' '') (take k (trimmed snippets)) \<and>
     (0 < k \<longrightarrow> int (length (join (lit '' '') (take k (trimmed snippets)))) < max_chars) \<and>
     (k < length (trimmed snippets) \<longrightarrow>
        max_chars \<le> int (length (join (lit '' '') (take (Suc k) (trimmed snippets)))))"
    by (rule merge_snippets_prefix)
next
  assume "strip s \<noteq> [] \<and> int (length (strip s)) = max_chars"
  then show "merge_snippets [s] max_chars = []"
    by (simp add: merge_snippets_def)
next
  assume a: "strip s \<noteq> [] \<and> int (length (strip s)) < max_chars"
  then show "merge_snippets [s] max_chars = strip s"
    by (simp add: merge_snippets_def)
qed

theorem merge_snippets_greedy_witness:
  "(\<exists>k\<le>length (trimmed [lit '' ab '', lit ''  '', lit ''cde'', lit ''f'']).
     merge_snippets [lit '' ab '', lit ''  '', lit ''cde'', lit ''f''] 7 =
       join (lit '' '') (take k (trimmed [lit '' ab '', lit ''  '', lit ''cde'', lit ''f''])) \<and>
     k = 2) \<and>
   merge_snippets [lit ''abc''] 3 = [] \<and> merge_snippets [lit ''abc''] 4 = lit ''abc''"
proof -
  let ?xs = "[lit '' ab '', lit ''  '', lit ''cde'', lit ''f'']"
  have t: "trimmed ?xs = [lit ''ab'', lit ''cde'', lit ''f'']"
    by (simp add: trimmed_def eval_str)
  have s: "strip (lit ''abc'') = lit ''abc''" by (simp add: eval_str)
  note g = merge_snippets_greedy [of ?xs 7 "lit ''abc''"]
  from g obtain k where k: "k \<le> length (trimmed ?xs)"
    "merge_snippets ?xs 7 = join (lit '' '') (take k (trimmed ?xs))"
    "0 < k \<longrightarrow> int (length (join (lit '' '') (take k (trimmed ?xs)))) < 7"
    "k < length (trimmed ?xs) \<longrightarrow> 7 \<le> int (length (join (lit '' '') (take (Suc k) (trimmed ?xs))))"
    by blast
  have "k = 2"
  proof -
    from k(1) t have "k = 0 \<or> k = 1 \<or> k = 2 \<or> k = 3" by auto
    with k(3,4) show ?thesis unfolding t by (auto simp: lit_def)
  qed
  with k have 1: "\<exists>k\<le>length (trimmed ?xs).
      merge_snippets ?xs 7 = join (lit '' '') (take k (trimmed ?xs)) \<and> k = 2" by blast
  have 2: "merge_snippets [lit ''abc''] 3 = []"
    using merge_snippets_greedy [of "[]" 3 "lit ''abc''"] s by (simp add: lit_def)
  have 3: "merge_snippets [lit ''abc''] 4 = lit ''abc''"
    using merge_snippets_greedy [of "[]" 4 "lit ''abc''"] s by (simp add: lit_def)
  from 1 2 3 show ?thesis by blast
qed

section \<open>Topic detection and filtering\<close>

lemma get_topic_keywords_table:
  "get_topic_keywords lower query = first_match (lower query) topic_rules"
  by (simp add: get_topic_keywords_def first_match_def topic_rules_def rule_matches_def Let_def)

lemma topic_loop_filter:
  "topic_loop lower kws filtered results =
   filtered @ filter (\<lambda>r. \<exists>kw\<in>set kws. contains kw (lower (get_or (e_filename r) []))) results"
  by (induction results arbitrary: filtered) (simp_all add: list_ex_iff Let_def)

section \<open>Claims on topic detection and filtering\<close>

text \<open>
  Claim C7: topic detection evaluates the priority-ordered rule list \<open>topic_rules\<close>
  against the lower-cased query and returns the tags of the first rule that matches, and
  the empty list when none does; a query whose lower-cased form contains \<open>otite\<close> gets
  exactly \<open>[otite]\<close>, whatever else it names.
\<close>

theorem get_topic_keywords_first_match:
  "get_topic_keywords lower query = first_match (lower query) topic_rules \<and>
   (contains (lit ''otite'') (lower query) \<longrightarrow> get_topic_keywords lower query = [lit ''otite''])"
proof (intro conjI impI)
  show "get_topic_keywords lower query = first_match (lower query) topic_rules"
    by (rule get_topic_keywords_table)
next
  assume "contains (lit ''otite'') (lower query)"
  then show "get_topic_keywords lower query = [lit ''otite'']"
    by (simp add: get_topic_keywords_def)
qed

theorem get_topic_keywords_first_match_witness:
  "get_topic_keywords lower_ascii (lit ''Otite et diabete ?'') =
     first_match (lower_ascii (lit ''Otite et diabete ?'')) topic_rules \<and>
   contains (lit ''otite'') (lower_ascii (lit ''Otite et diabete ?'')) \<and>
   contains (lit ''diabete'') (lower_ascii (lit ''Otite et diabete ?'')) \<and>
   get_topic_keywords lower_ascii (lit ''Otite et diabete ?'') = [lit ''otite'']"
proof -
  have c: "contains (lit ''otite'') (lower_ascii (lit ''Otite et diabete ?''))"
    by (simp add: lit_def lower_ascii_def)
  have d: "contains (lit ''diabete'') (lower_ascii (lit ''Otite et diabete ?''))"
    by (simp add: lit_def lower_ascii_def)
  from c d get_topic_keywords_first_match [of lower_ascii "lit ''Otite et diabete ?''"]
  show ?thesis by blast
qed

text \<open>
  Claim C2: for every non-empty list of results and every query, topic filtering returns
  a non-empty list: the results unchanged when no topic is detected; otherwise the
  results, in their order, whose lower-cased filename contains some detected keyword,
  and the unfiltered results when there is none.
\<close>

theorem filter_results_by_topic_fallback:
  assumes "results \<noteq> []"
  shows "filter_results_by_topic lower results query \<noteq> [] \<and>
    (get_topic_keywords lower query = [] \<longrightarrow>
       filter_results_by_topic lower results query = results) \<and>
    (get_topic_keywords lower query \<noteq> [] \<longrightarrow>
       filter_results_by_topic lower results query =
         (let kept = filter (\<lambda>r. \<exists>kw\<in>set (get_topic_keywords lower query).
                                contains kw (lower (get_or (e_filename r) []))) results
          in if kept = [] then results else kept))"
  using assms by (simp add: filter_results_by_topic_def topic_loop_filter Let_def)

theorem filter_results_by_topic_fallback_witness:
  "[\<lparr>e_filename = Some (lit ''diabete_info.pdf''), e_text = None, e_score = None,
      e_chunk_index = Some 0\<rparr>,
    \<lparr>e_filename = Some (lit ''Otite_conduite.pdf''), e_text = None, e_score = None,
      e_chunk_index = Some 1\<rparr>] \<noteq> [] \<and>
   filter_results_by_topic lower_ascii
     [\<lparr>e_filename = Some (lit ''diabete_info.pdf''), e_text = None, e_score = None,
        e_chunk_index = Some 0\<rparr>,
      \<lparr>e_filename = Some (lit ''Otite_conduite.pdf''), e_text = None, e_score = None,
        e_chunk_index = Some 1\<rparr>]
     (lit ''une otite ?'') \<noteq> [] \<and>
   filter_results_by_topic lower_ascii
     [\<lparr>e_filename = Some (lit ''diabete_info.pdf''), e_text = None, e_score = None,
        e_chunk_index = Some 0\<rparr>,
      \<lparr>e_filename = Some (lit ''Otite_conduite.pdf''), e_text = None, e_score = None,
        e_chunk_index = Some 1\<rparr>]
     (lit ''une otite ?'') =
   [\<lparr>e_filename = Some (lit ''Otite_conduite.pdf''), e_text = None, e_score = None,
      e_chunk_index = Some 1\<rparr>]"
proof -
  let ?d = "\<lparr>e_filename = Some (lit ''diabete_info.pdf''), e_text = None, e_score = None,
      e_chunk_index = Some 0\<rparr>"
  let ?o = "\<lparr>e_filename = Some (lit ''Otite_conduite.pdf''), e_text = None, e_score = None,
      e_chunk_index = Some 1\<rparr>"
  have h: "[?d, ?o] \<noteq> []" by simp
  have k: "get_topic_keywords lower_ascii (lit ''une otite ?'') = [lit ''otite'']"
    by (simp add: get_topic_keywords_def lit_def lower_ascii_def)
  have f: "filter (\<lambda>r. \<exists>kw\<in>set [lit ''otite'']. contains kw (lower_ascii (get_or (e_filename r) [])))
             [?d, ?o] = [?o]"
    by (simp add: get_or_def lit_def lower_ascii_def)
  from filter_results_by_topic_fallback [OF h, of lower_ascii "lit ''une otite ?''"]
  have "filter_results_by_topic lower_ascii [?d, ?o] (lit ''une otite ?'') \<noteq> []"
    and "filter_results_by_topic lower_ascii [?d, ?o] (lit ''une otite ?'') = [?o]"
    unfolding k f by simp_all
  with h show ?thesis by blast
qed

section \<open>Sentences and summaries\<close>

lemma filter_sentences_trimmed: "\<forall>x\<in>set (filter_sentences lower ss). is_trimmed x"
proof (induction ss)
  case Nil
  then show ?case by simp
next
  case (Cons s ss)
  have "is_trimmed (strip s)" if "\<not> length (strip s) < 30"
    using that by (intro is_trimmed_strip) auto
  with Cons show ?case by (simp add: Let_def)
qed

lemma split_sentences_Nil: "clean_text t = [] \<Longrightarrow> split_sentences t = []"
  by (simp add: split_sentences_def str_split_def)

lemma clean_text_Nil [simp]: "clean_text [] = []"
  by (simp add: clean_text_def)

lemma clean_text_spaces: "clean_text (lit ''   '') = []"
  by (simp add: clean_text_one_pass eval_str)

lemma length_strip_le: "length (strip s) \<le> length s"
  using strip_sublist [of s] by (rule sublist_length_le)

lemma filter_sentences_short:
  "\<forall>s\<in>set ss. length s < 30 \<Longrightarrow> filter_sentences lower ss = []"
proof (induction ss)
  case Nil
  then show ?case by simp
next
  case (Cons s ss)
  then have "length (strip s) < 30" using length_strip_le [of s] by simp
  with Cons show ?case by simp
qed

lemma summarize_snippet_Nil:
  "filter_sentences lower (split_sentences t) = [] \<Longrightarrow> summarize_snippet lower t n = []"
  by (simp add: summarize_snippet_def)

lemma summarize_snippet_take:
  assumes "0 \<le> n"
  shows "summarize_snippet lower t n = summarize_spec lower t (nat n)"
proof -
  let ?sv = "filter_sentences lower (split_sentences t)"
  have "\<forall>x\<in>set (take (nat n) ?sv). is_trimmed x"
    using filter_sentences_trimmed [of lower "split_sentences t"] by (auto dest: in_set_takeD)
  then have "strip (join (lit ''. '') (take (nat n) ?sv)) = join (lit ''. '') (take (nat n) ?sv)"
    by (rule strip_join)
  moreover from assms have "slice_to ?sv n = take (nat n) ?sv" by (simp add: slice_to_def)
  ultimately show ?thesis
    by (simp add: summarize_snippet_def summarize_spec_def Let_def)
qed

section \<open>Claim on the summariser\<close>

text \<open>
  Claim C8: the summary of a raw text is made of the sentences that sentence splitting
  and then sentence filtering leave: the first \<open>max_sentences\<close> of them, joined with a
  period and a space, with a final period added when there is none; it is the empty
  string when no sentence survives. The empty string and the string of three spaces
  have the empty summary for every \<open>max_sentences\<close>.
\<close>

theorem summarize_snippet_refines_spec:
  "(0 \<le> n \<longrightarrow> summarize_snippet lower raw_text n = summarize_spec lower raw_text (nat n)) \<and>
   (filter_sentences lower (split_sentences raw_text) = [] \<longrightarrow>
      summarize_snippet lower raw_text n = []) \<and>
   summarize_snippet lower [] n = [] \<and>
   summarize_snippet lower (lit ''   '') n = []"
  by (simp add: summarize_snippet_take summarize_snippet_Nil split_sentences_Nil clean_text_spaces)

lemmas eval_sent = split_sentences_def str_split_def Let_def startswith_def endswith_def
  UNWANTED_PATTERNS_def BIBLIO_PATTERNS_def MONTHS_def lower_ascii_def

theorem summarize_snippet_refines_spec_witness:
  "(0::int) \<le> 1 \<and>
   summarize_snippet lower_ascii
     (lit ''La fievre est une elevation de la temperature. Court. Il faut boire beaucoup de liquide.'') 1 =
   summarize_spec lower_ascii
     (lit ''La fievre est une elevation de la temperature. Court. Il faut boire beaucoup de liquide.'') (nat 1) \<and>
   summarize_spec lower_ascii
     (lit ''La fievre est une elevation de la temperature. Court. Il faut boire beaucoup de liquide.'') (nat 1) =
   lit ''La fievre est une elevation de la temperature.'' \<and>
   summarize_snippet lower_ascii [] 1 = [] \<and>
   summarize_snippet lower_ascii (lit ''   '') 1 = []"
proof -
  let ?t = "lit ''La fievre est une elevation de la temperature. Court. Il faut boire beaucoup de liquide.''"
  have h: "(0::int) \<le> 1" by simp
  have c: "clean_text ?t = ?t"
    by (simp add: clean_text_one_pass eval_str)
  have s: "split_sentences ?t =
      [lit ''La fievre est une elevation de la temperature'', lit ''Court'',
       lit ''Il faut boire beaucoup de liquide'']"
    unfolding split_sentences_def c by (simp add: str_split_def eval_str)
  have f: "filter_sentences lower_ascii
      [lit ''La fievre est une elevation de la temperature'', lit ''Court'',
       lit ''Il faut boire beaucoup de liquide''] =
      [lit ''La fievre est une elevation de la temperature'',
       lit ''Il faut boire beaucoup de liquide'']"
    by (simp add: eval_sent eval_str)
  have e: "summarize_spec lower_ascii ?t (nat 1) = lit ''La fievre est une elevation de la temperature.''"
    unfolding summarize_spec_def s f by (simp add: endswith_def lit_def Let_def suffix_to_prefix)
  from h e summarize_snippet_refines_spec [of 1 lower_ascii ?t] show ?thesis by blast
qed

section \<open>The answer composer\<close>

lemma sources_loop_map:
  "sources_loop lower mcc snips srcs results =
     (snips @ filter (\<lambda>s. s \<noteq> []) (map (snippet_of lower mcc) results),
      srcs @ map (source_of lower mcc) results)"
  by (induction results arbitrary: snips srcs) (simp_all add: Let_def source_of_def)

lemma filter_results_by_topic_Nil: "filter_results_by_topic lower [] query = []"
  by (simp add: filter_results_by_topic_def Let_def)

lemma sources_answer:
  "sources (answer_question_extractive lower retrieve_top_k query emb meta k mcc) =
   map (source_of lower mcc) (filter_results_by_topic lower (retrieve_top_k query emb meta k) query)"
  by (simp add: answer_question_extractive_def Let_def sources_loop_map
      filter_results_by_topic_Nil)

lemma snippet_of_empty_iff:
  "snippet_of lower mcc r = [] \<longleftrightarrow> clean_text (slice_to (get_or (e_text r) []) mcc) = []"
proof -
  let ?raw = "slice_to (get_or (e_text r) []) mcc"
  have "summarize_snippet lower ?raw 3 = []" if "clean_text ?raw = []"
    using that by (simp add: summarize_snippet_Nil split_sentences_Nil)
  then show ?thesis by (auto simp: snippet_of_def Let_def)
qed

lemma split_sentences_nonempty: "split_sentences t \<noteq> [] \<Longrightarrow> clean_text t \<noteq> []"
  using split_sentences_Nil [of t] by blast

section \<open>Claim on the snippet fallback\<close>

text \<open>
  Claim C9: the sources of an answer are the Source records of the retained results, in
  order. For a result whose truncated chunk text has an empty summary, the snippet is the
  cleaned truncated text; so a snippet is empty only when cleaning the truncated text
  gives the empty string. A chunk whose truncated text has sentences, all shorter than
  30 characters, gets the cleaned text as its snippet, and that snippet is not empty.
\<close>

theorem snippet_fallback:
  "sources (answer_question_extractive lower retrieve_top_k query emb meta k mcc) =
     map (source_of lower mcc)
       (filter_results_by_topic lower (retrieve_top_k query emb meta k) query) \<and>
   (summarize_snippet lower (slice_to (get_or (e_text r) []) mcc) 3 = [] \<longrightarrow>
      src_snippet (source_of lower mcc r) = clean_text (slice_to (get_or (e_text r) []) mcc)) \<and>
   (src_snippet (source_of lower mcc r) = [] \<longleftrightarrow>
      clean_text (slice_to (get_or (e_text r) []) mcc) = []) \<and>
   (split_sentences (slice_to (get_or (e_text r) []) mcc) \<noteq> [] \<and>
    (\<forall>s\<in>set (split_sentences (slice_to (get_or (e_text r) []) mcc)). length s < 30) \<longrightarrow>
      src_snippet (source_of lower mcc r) = clean_text (slice_to (get_or (e_text r) []) mcc) \<and>
      src_snippet (source_of lower mcc r) \<noteq> [])"
proof (intro conjI impI)
  let ?raw = "slice_to (get_or (e_text r) []) mcc"
  show "sources (answer_question_extractive lower retrieve_top_k query emb meta k mcc) =
     map (source_of lower mcc)
       (filter_results_by_topic lower (retrieve_top_k query emb meta k) query)"
    by (rule sources_answer)
  show "src_snippet (source_of lower mcc r) = clean_text ?raw"
    if "summarize_snippet lower ?raw 3 = []"
    using that by (simp add: source_of_def snippet_of_def Let_def)
  show "(src_snippet (source_of lower mcc r) = []) = (clean_text ?raw = [])"
    by (simp add: source_of_def snippet_of_empty_iff)
  assume a: "split_sentences ?raw \<noteq> [] \<and> (\<forall>s\<in>set (split_sentences ?raw). length s < 30)"
  then have "filter_sentences lower (split_sentences ?raw) = []"
    by (intro filter_sentences_short) simp
  then have "summarize_snippet lower ?raw 3 = []" by (rule summarize_snippet_Nil)
  then show "src_snippet (source_of lower mcc r) = clean_text ?raw"
    by (simp add: source_of_def snippet_of_def Let_def)
  moreover from a have "clean_text ?raw \<noteq> []" by (intro split_sentences_nonempty) simp
  ultimately show "src_snippet (source_of lower mcc r) \<noteq> []" by simp
qed

theorem snippet_fallback_witness:
  "split_sentences (slice_to (get_or (e_text
      \<lparr>e_filename = Some (lit ''docs/otite.pdf''), e_text = Some (lit ''Oui.  Non merci.''),
       e_score = Some 1, e_chunk_index = Some 2\<rparr>) []) 600) = [lit ''Oui'', lit ''Non merci''] \<and>
   summarize_snippet lower_ascii (slice_to (get_or (e_text
      \<lparr>e_filename = Some (lit ''docs/otite.pdf''), e_text = Some (lit ''Oui.  Non merci.''),
       e_score = Some 1, e_chunk_index = Some 2\<rparr>) []) 600) 3 = [] \<and>
   sources (answer_question_extractive lower_ascii
      (\<lambda>q e m k. [\<lparr>e_filename = Some (lit ''docs/otite.pdf''),
                     e_text = Some (lit ''Oui.  Non merci.''),
                     e_score = Some 1, e_chunk_index = Some 2\<rparr>])
      (lit ''otite'') () [] 3 600) =
   [\<lparr>src_filename = lit ''otite.pdf'', src_score = 1, src_chunk_index = 2,
     src_snippet = lit ''Oui. Non merci.''\<rparr>]"
proof -
  let ?r = "\<lparr>e_filename = Some (lit ''docs/otite.pdf''), e_text = Some (lit ''Oui.  Non merci.''),
       e_score = Some 1, e_chunk_index = Some 2\<rparr>"
  let ?raw = "slice_to (get_or (e_text ?r) []) 600"
  have raw: "?raw = lit ''Oui.  Non merci.''"
    by (simp add: slice_to_def get_or_def lit_def)
  have c: "clean_text (lit ''Oui.  Non merci.'') = lit ''Oui. Non merci.''"
    by (simp add: clean_text_one_pass eval_str)
  have s: "split_sentences ?raw = [lit ''Oui'', lit ''Non merci'']"
    unfolding raw split_sentences_def c by (simp add: str_split_def eval_str)
  then have h: "split_sentences ?raw \<noteq> [] \<and> (\<forall>s\<in>set (split_sentences ?raw). length s < 30)"
    by (simp add: lit_def)
  note t = snippet_fallback [of lower_ascii "\<lambda>q e m k. [?r]" "lit ''otite''" "()" "[]" 3 600 ?r]
  from t h have snip: "src_snippet (source_of lower_ascii 600 ?r) = lit ''Oui. Non merci.''"
    unfolding raw c by blast
  have z: "summarize_snippet lower_ascii ?raw 3 = []"
    using h by (intro summarize_snippet_Nil filter_sentences_short) simp
  have k: "get_topic_keywords lower_ascii (lit ''otite'') = [lit ''otite'']"
    by (simp add: get_topic_keywords_def lit_def lower_ascii_def)
  have f: "filter_results_by_topic lower_ascii [?r] (lit ''otite'') = [?r]"
    by (simp add: filter_results_by_topic_def k Let_def)
  have b: "basename (lit ''docs/otite.pdf'') = lit ''otite.pdf''"
    by (simp add: basename_def lit_def)
  have so: "source_of lower_ascii 600 ?r =
      \<lparr>src_filename = lit ''otite.pdf'', src_score = 1, src_chunk_index = 2,
       src_snippet = lit ''Oui. Non merci.''\<rparr>"
    using snip by (simp add: source_of_def get_or_def b)
  from t have "sources (answer_question_extractive lower_ascii (\<lambda>q e m k. [?r])
      (lit ''otite'') () [] 3 600) = map (source_of lower_ascii 600)
        (filter_results_by_topic lower_ascii [?r] (lit ''otite''))"
    by blast
  with f so s z show ?thesis by simp
qed

section \<open>Filenames of the persisted index\<close>

lemma basename_no_directory: "\<not> has_directory (basename p)"
proof -
  have "set (takeWhile (\<lambda>c. c \<noteq> 0x2F) (rev p)) \<subseteq> {c. c \<noteq> 0x2F}"
    by (auto dest: set_takeWhileD)
  then show ?thesis by (auto simp: has_directory_def basename_def)
qed

lemma basename_id:
  assumes "\<not> has_directory p"
  shows "basename p = p"
proof -
  from assms have "\<forall>c\<in>set (rev p). c \<noteq> 0x2F" by (auto simp: has_directory_def)
  then have tw: "takeWhile (\<lambda>c. c \<noteq> 0x2F) (rev p) = rev p"
    by (simp only: takeWhile_eq_all_conv)
  show ?thesis unfolding basename_def tw by simp
qed

lemma basename_basename: "basename (basename p) = basename p"
  by (intro basename_id basename_no_directory)

lemma clean_filenames_map:
  "clean_filenames ms =
   map (\<lambda>m. m\<lparr>e_filename := map_option basename (e_filename m)\<rparr>) ms"
proof (induction ms)
  case Nil
  then show ?case by simp
next
  case (Cons m ms)
  have "basename [] = []" by (simp add: basename_def)
  with Cons show ?case by (cases "e_filename m") auto
qed

lemma main_persisted:
  assumes "main lower isdir globbed build_index = Inr (emb, persisted)"
  shows "\<exists>paths. persisted = clean_filenames (snd (build_index paths)) \<and>
                  emb = fst (build_index paths)"
proof -
  let ?paths = "filter (\<lambda>p. endswith (lower p) (lit ''.pdf'') \<or> endswith (lower p) (lit ''.txt''))
                  globbed"
  from assms have "persisted = clean_filenames (snd (build_index ?paths)) \<and>
                   emb = fst (build_index ?paths)"
    by (auto simp: main_def Let_def split: if_splits prod.splits)
  then show ?thesis by blast
qed

section \<open>Claim on the filenames of the persisted index\<close>

text \<open>
  Claim C10: when the offline build succeeds, the metadata it persists is the metadata
  of the index builder with every filename replaced by its basename. So no persisted
  filename has a directory component, and the basename that the composer takes of a
  persisted record's filename (or of the default \<open>document inconnu\<close>) changes nothing.
\<close>

theorem main_persists_basenames:
  assumes "main lower isdir globbed build_index = Inr (emb, persisted)"
  shows "(\<exists>paths. persisted =
            map (\<lambda>m. m\<lparr>e_filename := map_option basename (e_filename m)\<rparr>)
              (snd (build_index paths))) \<and>
         (\<forall>m\<in>set persisted. \<forall>f. e_filename m = Some f \<longrightarrow> \<not> has_directory f) \<and>
         (\<forall>m\<in>set persisted.
            basename (get_or (e_filename m) (lit ''document inconnu'')) =
            get_or (e_filename m) (lit ''document inconnu''))"
proof -
  from main_persisted [OF assms] obtain paths
    where p: "persisted = clean_filenames (snd (build_index paths))" by blast
  have 1: "\<exists>paths. persisted =
            map (\<lambda>m. m\<lparr>e_filename := map_option basename (e_filename m)\<rparr>)
              (snd (build_index paths))"
    using p clean_filenames_map by blast
  have 2: "\<not> has_directory f" if "m \<in> set persisted" "e_filename m = Some f" for m f
    using that p by (auto simp: clean_filenames_map basename_no_directory)
  have d: "\<not> has_directory (lit ''document inconnu'')"
    by (simp add: has_directory_def lit_def)
  have 3: "basename (get_or (e_filename m) (lit ''document inconnu'')) =
           get_or (e_filename m) (lit ''document inconnu'')" if "m \<in> set persisted" for m
    using 2 [OF that] d by (cases "e_filename m") (simp_all add: get_or_def basename_id)
  from 1 2 3 show ?thesis by blast
qed

theorem main_persists_basenames_witness:
  "main lower_ascii True [lit ''b/Otite.PDF'', lit ''b/notes.md'']
     (\<lambda>paths. ((), map (\<lambda>p. \<lparr>e_filename = Some p, e_text = Some (lit ''x''), e_score = None,
                                e_chunk_index = Some 0\<rparr>) paths)) =
   Inr ((), [\<lparr>e_filename = Some (lit ''Otite.PDF''), e_text = Some (lit ''x''), e_score = None,
              e_chunk_index = Some 0\<rparr>]) \<and>
   \<not> has_directory (lit ''Otite.PDF'') \<and>
   basename (get_or (Some (lit ''Otite.PDF'')) (lit ''document inconnu'')) =
     get_or (Some (lit ''Otite.PDF'')) (lit ''document inconnu'')"
proof -
  let ?b = "\<lambda>paths. ((), map (\<lambda>p. \<lparr>e_filename = Some p, e_text = Some (lit ''x''),
                e_score = None, e_chunk_index = Some 0\<rparr>) paths)"
  let ?m = "\<lparr>e_filename = Some (lit ''Otite.PDF''), e_text = Some (lit ''x''), e_score = None,
              e_chunk_index = Some 0\<rparr>"
  have b: "basename (lit ''b/Otite.PDF'') = lit ''Otite.PDF''"
    by (simp add: basename_def lit_def)
  have h: "main lower_ascii True [lit ''b/Otite.PDF'', lit ''b/notes.md''] ?b = Inr ((), [?m])"
    by (simp add: main_def Let_def b) (simp add: endswith_def suffix_to_prefix lit_def lower_ascii_def)
  note t = main_persists_basenames [OF h]
  from t have "\<not> has_directory (lit ''Otite.PDF'')" by simp
  moreover from t have "basename (get_or (e_filename ?m) (lit ''document inconnu'')) =
      get_or (e_filename ?m) (lit ''document inconnu'')" by simp
  ultimately show ?thesis using h by simp
qed

section \<open>Claim on loading the vector store\<close>

text \<open>
  Claim C1, as stated, fails: \<open>load_vector_store\<close> never compares the number of vector
  rows with the number of metadata records. With two rows and one record it succeeds and
  marks the index ready, and the application then serves queries on it.
\<close>

theorem load_vector_store_mismatch_counterexample:
  "load_vector_store (Stored [[1, 0], [0, 1]])
     (Stored [\<lparr>e_filename = Some (lit ''a.pdf''), e_text = Some (lit ''x''), e_score = None,
               e_chunk_index = Some 0\<rparr>])
     \<lparr>index_ready = False, embeddings = None, metadata = None\<rparr> =
   (True, [],
    \<lparr>index_ready = True, embeddings = Some [[1, 0], [0, 1]],
     metadata = Some [\<lparr>e_filename = Some (lit ''a.pdf''), e_text = Some (lit ''x''),
                       e_score = None, e_chunk_index = Some 0\<rparr>]\<rparr>) \<and>
   \<not> consistent
     \<lparr>index_ready = True, embeddings = Some [[1, 0], [0, 1]],
      metadata = Some [\<lparr>e_filename = Some (lit ''a.pdf''), e_text = Some (lit ''x''),
                        e_score = None, e_chunk_index = Some 0\<rparr>]\<rparr>"
  by (simp add: load_vector_store_def consistent_def)

text \<open>
  Claim C1, amended: loading fails as a unit when either file is missing or cannot be
  read: it returns \<open>False\<close>, shows one error and leaves the session state as it was. It
  succeeds exactly when both files load; it then stores both, marks the index ready
  and checks nothing else, so the counts may differ.
\<close>

theorem load_vector_store_as_unit:
  "(fst (load_vector_store emb_file meta_file st) \<longleftrightarrow>
      (\<exists>emb meta. emb_file = Stored emb \<and> meta_file = Stored meta)) \<and>
   (\<not> fst (load_vector_store emb_file meta_file st) \<longrightarrow>
      snd (snd (load_vector_store emb_file meta_file st)) = st \<and>
      fst (snd (load_vector_store emb_file meta_file st)) \<noteq> []) \<and>
   (emb_file = Stored emb \<and> meta_file = Stored meta \<longrightarrow>
      load_vector_store emb_file meta_file st =
        (True, [], st\<lparr>embeddings := Some emb, metadata := Some meta, index_ready := True\<rparr>))"
  by (cases emb_file; cases meta_file) (simp_all add: load_vector_store_def)

theorem load_vector_store_as_unit_witness:
  "\<not> fst (load_vector_store (Stored [[1, 0]]) Unreadable
       \<lparr>index_ready = False, embeddings = None, metadata = None\<rparr>) \<and>
   snd (snd (load_vector_store (Stored [[1, 0]]) Unreadable
       \<lparr>index_ready = False, embeddings = None, metadata = None\<rparr>)) =
     \<lparr>index_ready = False, embeddings = None, metadata = None\<rparr> \<and>
   load_vector_store (Stored [[1, 0]]) (Stored [])
       \<lparr>index_ready = False, embeddings = None, metadata = None\<rparr> =
     (True, [], \<lparr>index_ready = True, embeddings = Some [[1, 0]], metadata = Some []\<rparr>)"
proof -
  let ?st = "\<lparr>index_ready = False, embeddings = None, metadata = None\<rparr>"
  have n: "\<not> (\<exists>emb meta. (Stored [[1, 0]] :: real list list stored) = Stored emb \<and>
               (Unreadable :: entry list stored) = Stored meta)" by simp
  note u = load_vector_store_as_unit [of "Stored [[1, 0]]" Unreadable ?st]
  from u n have f: "\<not> fst (load_vector_store (Stored [[1, 0]]) Unreadable ?st)" by blast
  with u have s: "snd (snd (load_vector_store (Stored [[1, 0]]) Unreadable ?st)) = ?st" by blast
  have "load_vector_store (Stored [[1, 0]]) (Stored []) ?st =
      (True, [], ?st\<lparr>embeddings := Some [[1, 0]], metadata := Some [], index_ready := True\<rparr>)"
    using load_vector_store_as_unit [of "Stored [[1, 0]]" "Stored []" ?st "[[1, 0]]" "[]"] by blast
  with f s show ?thesis by simp
qed

end
